theory Spec2Isabelle
  imports Complex_Main "HOL-Library.List_Lexorder" "HOL-Library.Char_ord"
begin

section \<open>The fuzz runner of scripts/fuzz.py\<close>

text \<open>
  The development embeds \<^verbatim>\<open>scripts/fuzz.py\<close>: target discovery, the execution of one
  fuzz test, the scheduling loop over the futures of a thread pool, and the exit status.
  Everything the program reads from its surroundings is an explicit input of the model:
  the core count, the listing returned by \<^verbatim>\<open>glob\<close> and the file contents, what
  \<^verbatim>\<open>subprocess.run\<close> did, the clock readings, whether a write to the error file raises,
  and the order in which worker threads and the main loop take their steps.
  Console logging through \<^verbatim>\<open>self.logger\<close> changes no value of the program and is left out.
\<close>

subsection \<open>Data model\<close>

text \<open>The fields \<^verbatim>\<open>function\<close> and \<^verbatim>\<open>output\<close> of the source are \<open>function_name\<close> and
  \<open>output_text\<close> here (both words are reserved).\<close>

record FuzzTarget =
  directory :: string
  function_name :: string
  file_path :: string

record FuzzResult =
  target :: FuzzTarget
  success :: bool
  duration :: real
  output_text :: string
  error :: string

record FuzzConfig =
  fuzz_time :: int
  jobs :: int
  error_file :: "string option"
  continue_on_failure :: bool
  verbose :: bool
  config_dir :: string

text \<open>The values set by \<^verbatim>\<open>FuzzConfig.__init__\<close>.\<close>

definition FuzzConfig_init :: FuzzConfig where
  "FuzzConfig_init =
     \<lparr>fuzz_time = 10, jobs = 0, error_file = None, continue_on_failure = False,
      verbose = False, config_dir = ''./shared''\<rparr>"

text \<open>
  Exceptions. \<open>Exception s\<close> is any exception that \<^verbatim>\<open>except Exception\<close> catches, with
  \<^verbatim>\<open>str(e) = s\<close>; \<open>KeyboardInterrupt\<close> is not caught by it.
\<close>

datatype py_exn = KeyboardInterrupt | Exception string

text \<open>
  The surroundings of one process: what \<^verbatim>\<open>os.cpu_count()\<close> returns, the environment
  variables, the text \<^verbatim>\<open>f"{x:.1f}"\<close> of a float (floating-point formatting is not
  modelled, it is a parameter), and for the \<open>k\<close>-th write to the error file whether it
  raises (\<open>Some\<close> of the exception's text) or succeeds (\<open>None\<close>).
\<close>

record host =
  os_cpu_count :: "int option"
  os_environ :: "string \<rightharpoonup> string"
  fmt_1f :: "real \<Rightarrow> string"
  sink_fault :: "nat \<Rightarrow> string option"

subsection \<open>Decimal text of an integer\<close>

definition digit_char :: "nat \<Rightarrow> char" where
  "digit_char d = char_of (48 + d)"

fun str_nat :: "nat \<Rightarrow> string" where
  "str_nat n = (if n < 10 then [digit_char n] else str_nat (n div 10) @ [digit_char (n mod 10)])"

declare str_nat.simps [simp del]

text \<open>Python's \<^verbatim>\<open>str\<close> on an \<^verbatim>\<open>int\<close>.\<close>

definition str_int :: "int \<Rightarrow> string" where
  "str_int i = (if i < 0 then CHR ''-'' # str_nat (nat (- i)) else str_nat (nat i))"

subsection \<open>The runner and its worker count\<close>

text \<open>Truth value of an optional string: \<^verbatim>\<open>None\<close> and the empty string are false.\<close>

definition truthy :: "string option \<Rightarrow> bool" where
  "truthy p = (case p of None \<Rightarrow> False | Some s \<Rightarrow> s \<noteq> [])"

text \<open>\<^verbatim>\<open>os.cpu_count() or 4\<close>: \<^verbatim>\<open>None\<close> and \<^verbatim>\<open>0\<close> are false.\<close>

definition detect_cpu_cores :: "int option \<Rightarrow> int" where
  "detect_cpu_cores c = (case c of None \<Rightarrow> 4 | Some n \<Rightarrow> if n = 0 then 4 else n)"

text \<open>\<^verbatim>\<open>FuzzRunner._determine_jobs\<close>, with \<^verbatim>\<open>self.cpu_cores\<close> as second argument.\<close>

definition determine_jobs :: "FuzzConfig \<Rightarrow> int \<Rightarrow> int" where
  "determine_jobs cfg cores =
     (if jobs cfg > 0 then jobs cfg
      else if cores > 8 then 4
      else if cores > 4 then 2
      else 1)"

text \<open>
  The attributes of \<^verbatim>\<open>FuzzRunner\<close>. \<open>worker_jobs\<close> is \<^verbatim>\<open>self.jobs\<close>;
  \<open>error_file_handle\<close> tells whether a handle was opened (the handle's content is the
  sink state below).
\<close>

record FuzzRunner =
  config :: FuzzConfig
  cpu_cores :: int
  worker_jobs :: int
  error_file_handle :: bool

text \<open>\<^verbatim>\<open>FuzzRunner.__init__\<close>. The file is opened with mode \<^verbatim>\<open>'w'\<close>, so it starts empty.\<close>

definition FuzzRunner_init :: "host \<Rightarrow> FuzzConfig \<Rightarrow> FuzzRunner" where
  "FuzzRunner_init h cfg =
     \<lparr>config = cfg,
      cpu_cores = detect_cpu_cores (os_cpu_count h),
      worker_jobs = determine_jobs cfg (detect_cpu_cores (os_cpu_count h)),
      error_file_handle = truthy (error_file cfg)\<rparr>"

subsection \<open>The error file\<close>

text \<open>
  The error file is the list of texts written to it, in order, and the number of writes
  attempted so far. What reaches the file when a write raises is not modelled: the content
  is left as it was, and no statement below speaks about the content after a failed write.
\<close>

record sink =
  written :: "string list"
  attempts :: nat

definition sink_init :: sink where
  "sink_init = \<lparr>written = [], attempts = 0\<rparr>"

text \<open>\<^verbatim>\<open>FuzzRunner._log_error\<close>: \<open>Inl\<close> is the exception raised by \<^verbatim>\<open>write\<close> or \<^verbatim>\<open>flush\<close>.\<close>

definition log_error :: "host \<Rightarrow> FuzzRunner \<Rightarrow> string \<Rightarrow> sink \<Rightarrow> (string + unit) \<times> sink" where
  "log_error h r message s =
     (if error_file_handle r then
        (case sink_fault h (attempts s) of
           Some e \<Rightarrow> (Inl e, s\<lparr>attempts := Suc (attempts s)\<rparr>)
         | None \<Rightarrow>
             (Inr (), s\<lparr>written := written s @ [''[ERROR] '' @ message @ ''\<newline>''],
                        attempts := Suc (attempts s)\<rparr>))
      else (Inr (), s))"

text \<open>Sequencing of two statements, the second skipped when the first raises.\<close>

definition and_then ::
  "(string + unit) \<times> sink \<Rightarrow> (sink \<Rightarrow> (string + 'a) \<times> sink) \<Rightarrow> (string + 'a) \<times> sink" where
  "and_then a f = (case a of (Inl e, s) \<Rightarrow> (Inl e, s) | (Inr u, s) \<Rightarrow> f s)"

text \<open>\<^verbatim>\<open>try: a except Exception as e: handler\<close>, the handler receiving the text of \<open>e\<close>.\<close>

definition except_exception ::
  "(string + 'a) \<times> sink \<Rightarrow> (string \<Rightarrow> sink \<Rightarrow> (string + 'a) \<times> sink) \<Rightarrow> (string + 'a) \<times> sink" where
  "except_exception a handler = (case a of (Inl e, s) \<Rightarrow> handler e s | (Inr x, s) \<Rightarrow> (Inr x, s))"

subsection \<open>Running one fuzz test\<close>

text \<open>
  What \<^verbatim>\<open>subprocess.run\<close> did: it returned with an exit code, standard output and standard
  error; it raised \<^verbatim>\<open>TimeoutExpired\<close>; or it raised another exception with the given text.
\<close>

datatype proc_outcome = Exited int string string | TimeoutExpired | LaunchError string

text \<open>The arguments of \<^verbatim>\<open>subprocess.run\<close> that vary: the command, the environment, the timeout.\<close>

record subprocess_call =
  cmd :: "string list"
  env :: "string \<rightharpoonup> string"
  timeout :: int

text \<open>
  What one invocation observes: \<open>clock k\<close> is the value of the \<open>k\<close>-th call of
  \<^verbatim>\<open>time.time()\<close> (call 0 sets \<^verbatim>\<open>start_time\<close>), \<open>go_mod_exists\<close> is
  \<^verbatim>\<open>os.path.exists("go.mod")\<close>, and \<open>proc c\<close> is what \<^verbatim>\<open>subprocess.run\<close> does when
  called with the arguments \<open>c\<close>.
\<close>

record sandbox_obs =
  clock :: "nat \<Rightarrow> real"
  go_mod_exists :: bool
  proc :: "subprocess_call \<Rightarrow> proc_outcome"

definition gomaxprocs :: "FuzzRunner \<Rightarrow> int" where
  "gomaxprocs r = max 1 (cpu_cores r div worker_jobs r)"

definition module_path :: "FuzzTarget \<Rightarrow> bool \<Rightarrow> string" where
  "module_path tgt go_mod =
     (if go_mod then (if directory tgt = ''.'' then ''.'' else ''./'' @ directory tgt)
      else directory tgt)"

definition sandbox_call :: "host \<Rightarrow> FuzzRunner \<Rightarrow> FuzzTarget \<Rightarrow> bool \<Rightarrow> subprocess_call" where
  "sandbox_call h r tgt go_mod =
     \<lparr>cmd = [''go'', ''test'', module_path tgt go_mod,
             ''-run=^'' @ function_name tgt @ ''$'',
             ''-fuzz=^'' @ function_name tgt @ ''$'',
             ''-fuzztime='' @ str_int (fuzz_time (config r)) @ ''s''],
      env = (os_environ h)(''GOMAXPROCS'' \<mapsto> str_int (gomaxprocs r)),
      timeout = fuzz_time (config r) + 60\<rparr>"

text \<open>
  The \<^verbatim>\<open>except Exception as e\<close> handler of \<^verbatim>\<open>_run_single_fuzz_test\<close>; \<open>k\<close> is the index of
  the clock reading it makes. An exception raised by \<^verbatim>\<open>_log_error\<close> inside the handler
  leaves the function.
\<close>

definition exception_result ::
  "host \<Rightarrow> FuzzRunner \<Rightarrow> FuzzTarget \<Rightarrow> sandbox_obs \<Rightarrow> nat \<Rightarrow> string \<Rightarrow> sink \<Rightarrow> (string + FuzzResult) \<times> sink" where
  "exception_result h r tgt obs k e s =
     (let d = clock obs k - clock obs 0;
          error_msg = ''Exception running fuzz test '' @ function_name tgt @ '': '' @ e
      in and_then (log_error h r error_msg s)
           (\<lambda>s'. (Inr \<lparr>target = tgt, success = False, duration = d, output_text = [],
                        error = error_msg\<rparr>, s')))"

text \<open>The \<^verbatim>\<open>except subprocess.TimeoutExpired\<close> handler.\<close>

definition timeout_result ::
  "host \<Rightarrow> FuzzRunner \<Rightarrow> FuzzTarget \<Rightarrow> sandbox_obs \<Rightarrow> sink \<Rightarrow> (string + FuzzResult) \<times> sink" where
  "timeout_result h r tgt obs s =
     (let d = clock obs 1 - clock obs 0;
          error_msg = ''Fuzz test '' @ function_name tgt @ '' timed out after '' @ fmt_1f h d @ ''s''
      in and_then (log_error h r error_msg s)
           (\<lambda>s'. (Inr \<lparr>target = tgt, success = False, duration = d, output_text = [],
                        error = error_msg\<rparr>, s')))"

text \<open>The rest of the \<^verbatim>\<open>try\<close> body once \<^verbatim>\<open>subprocess.run\<close> has returned.\<close>

definition exited_result ::
  "host \<Rightarrow> FuzzRunner \<Rightarrow> FuzzTarget \<Rightarrow> sandbox_obs \<Rightarrow> int \<Rightarrow> string \<Rightarrow> string \<Rightarrow> sink \<Rightarrow>
     (string + FuzzResult) \<times> sink" where
  "exited_result h r tgt obs returncode out err s =
     (let d = clock obs 1 - clock obs 0;
          res = \<lparr>target = tgt, success = (returncode = 0), duration = d, output_text = out,
                 error = err\<rparr>
      in if returncode = 0 then (Inr res, s)
         else and_then
                (log_error h r
                   (''Failed fuzz test: '' @ function_name tgt @ '' in '' @ file_path tgt) s)
                (\<lambda>s1. if err \<noteq> []
                       then and_then (log_error h r (''Error output: '' @ err) s1)
                              (\<lambda>s2. (Inr res, s2))
                       else (Inr res, s1)))"

text \<open>
  \<^verbatim>\<open>FuzzRunner._run_single_fuzz_test\<close>. \<open>Inl\<close> is an exception that leaves the function
  (the first one is the division in \<^verbatim>\<open>self.cpu_cores // self.jobs\<close>, outside the
  \<^verbatim>\<open>try\<close>); \<open>Inr\<close> is the returned \<^verbatim>\<open>FuzzResult\<close>.
\<close>

definition run_single_fuzz_test ::
  "host \<Rightarrow> FuzzRunner \<Rightarrow> FuzzTarget \<Rightarrow> sandbox_obs \<Rightarrow> sink \<Rightarrow> (string + FuzzResult) \<times> sink" where
  "run_single_fuzz_test h r tgt obs s =
     (if worker_jobs r = 0 then (Inl ''integer division or modulo by zero'', s)
      else
        (case proc obs (sandbox_call h r tgt (go_mod_exists obs)) of
           Exited returncode out err \<Rightarrow>
             except_exception (exited_result h r tgt obs returncode out err s)
               (\<lambda>e s'. exception_result h r tgt obs 2 e s')
         | TimeoutExpired \<Rightarrow> timeout_result h r tgt obs s
         | LaunchError e \<Rightarrow> exception_result h r tgt obs 1 e s))"

subsection \<open>The scheduling loop\<close>

text \<open>
  The state of a future of the thread pool. A run of \<^verbatim>\<open>run_fuzz_tests\<close> is a sequence of
  steps of three kinds, in any order the pool allows: a worker takes the oldest pending
  future (\<open>Dispatch\<close>), a worker completes the call of a running future (\<open>Finish\<close>, with
  what that call observed), the main loop receives a finished future from
  \<^verbatim>\<open>as_completed\<close> and executes the loop body on it (\<open>Yield\<close>); \<open>Interrupt\<close> is a
  \<^verbatim>\<open>KeyboardInterrupt\<close> raised in the main thread. Each step is atomic: interleavings
  inside one call or one loop body are not modelled.
\<close>

datatype future = Pending | Running | Cancelled | Finished "string + FuzzResult"

datatype event = Dispatch | Finish nat sandbox_obs | Yield nat | Interrupt

record sched =
  futures :: "future list"
  seen :: "nat list"
  completed :: int
  failed :: int
  stopped :: bool
  interrupted :: bool
  sink_state :: sink

definition init_sched :: "FuzzTarget list \<Rightarrow> sink \<Rightarrow> sched" where
  "init_sched targets s =
     \<lparr>futures = replicate (length targets) Pending, seen = [], completed = 0, failed = 0,
      stopped = False, interrupted = False, sink_state = s\<rparr>"

fun first_pending :: "future list \<Rightarrow> nat option" where
  "first_pending [] = None"
| "first_pending (f # fs) = (if f = Pending then Some 0 else map_option Suc (first_pending fs))"

definition running_count :: "future list \<Rightarrow> nat" where
  "running_count fs = length (filter (\<lambda>f. f = Running) fs)"

text \<open>The cancel pass: \<^verbatim>\<open>cancel()\<close> succeeds on a pending future only.\<close>

definition cancel_remaining :: "future list \<Rightarrow> future list" where
  "cancel_remaining fs = map (\<lambda>f. if f = Pending then Cancelled else f) fs"

text \<open>The three \<^verbatim>\<open>_log_error\<close> calls of the loop body for a failed result.\<close>

definition log_failure_block :: "host \<Rightarrow> FuzzRunner \<Rightarrow> FuzzResult \<Rightarrow> sink \<Rightarrow> (string + unit) \<times> sink" where
  "log_failure_block h r res s =
     and_then
       (log_error h r
          (''FAILED: '' @ function_name (target res) @ '' in '' @ file_path (target res)) s)
       (\<lambda>s1. and_then
                (if error res \<noteq> [] then log_error h r (''Details: '' @ error res) s1
                 else (Inr (), s1))
                (\<lambda>s2. log_error h r ''---'' s2))"

text \<open>
  The body of \<^verbatim>\<open>for future in as_completed(future_to_target)\<close> for future \<open>i\<close> whose
  \<^verbatim>\<open>result()\<close> is \<open>x\<close>: \<open>Inl\<close> when \<^verbatim>\<open>future.result()\<close> raises.
\<close>

definition loop_body :: "host \<Rightarrow> FuzzRunner \<Rightarrow> sched \<Rightarrow> nat \<Rightarrow> string + FuzzResult \<Rightarrow> sched" where
  "loop_body h r st i x =
     (case x of
        Inl e \<Rightarrow> st\<lparr>seen := seen st @ [i], completed := completed st + 1, failed := failed st + 1\<rparr>
      | Inr res \<Rightarrow>
          (let st1 = st\<lparr>seen := seen st @ [i], completed := completed st + 1\<rparr> in
           if success res then st1
           else
             (let st2 = st1\<lparr>failed := failed st1 + 1\<rparr> in
              case (if truthy (error_file (config r))
                    then log_failure_block h r res (sink_state st2)
                    else (Inr (), sink_state st2)) of
                (Inl e, s') \<Rightarrow>
                  st2\<lparr>sink_state := s', completed := completed st2 + 1, failed := failed st2 + 1\<rparr>
              | (Inr u, s') \<Rightarrow>
                  if continue_on_failure (config r) then st2\<lparr>sink_state := s'\<rparr>
                  else st2\<lparr>sink_state := s', futures := cancel_remaining (futures st2),
                           stopped := True\<rparr>)))"

text \<open>The main loop is still iterating: no \<^verbatim>\<open>break\<close>, no interrupt, futures left to yield.\<close>

definition in_loop :: "sched \<Rightarrow> bool" where
  "in_loop st = (\<not> stopped st \<and> \<not> interrupted st \<and> length (seen st) < length (futures st))"

text \<open>
  The \<^verbatim>\<open>with\<close> block is left once the loop has ended and the pool has no work left
  (\<^verbatim>\<open>shutdown(wait=True)\<close>).
\<close>

definition terminated :: "sched \<Rightarrow> bool" where
  "terminated st = (\<not> in_loop st \<and> list_all (\<lambda>f. f \<noteq> Pending \<and> f \<noteq> Running) (futures st))"

fun step :: "host \<Rightarrow> FuzzRunner \<Rightarrow> FuzzTarget list \<Rightarrow> sched \<Rightarrow> event \<Rightarrow> sched option" where
  "step h r targets st Dispatch =
     (if int (running_count (futures st)) < worker_jobs r
      then (case first_pending (futures st) of
              None \<Rightarrow> None
            | Some i \<Rightarrow> Some (st\<lparr>futures := (futures st)[i := Running]\<rparr>))
      else None)"
| "step h r targets st (Finish i obs) =
     (if i < length (futures st) \<and> i < length targets \<and> futures st ! i = Running
      then (case run_single_fuzz_test h r (targets ! i) obs (sink_state st) of
              (x, s') \<Rightarrow> Some (st\<lparr>futures := (futures st)[i := Finished x], sink_state := s'\<rparr>))
      else None)"
| "step h r targets st (Yield i) =
     (if in_loop st \<and> i < length (futures st) \<and> i \<notin> set (seen st)
      then (case futures st ! i of
              Finished x \<Rightarrow> Some (loop_body h r st i x)
            | _ \<Rightarrow> None)
      else None)"
| "step h r targets st Interrupt =
     (if \<not> interrupted st \<and> \<not> terminated st then Some (st\<lparr>interrupted := True\<rparr>) else None)"

fun run_events :: "host \<Rightarrow> FuzzRunner \<Rightarrow> FuzzTarget list \<Rightarrow> sched \<Rightarrow> event list \<Rightarrow> sched option" where
  "run_events h r targets st [] = Some st"
| "run_events h r targets st (e # es) =
     (case step h r targets st e of
        None \<Rightarrow> None
      | Some st' \<Rightarrow> run_events h r targets st' es)"

text \<open>The dictionary returned by \<^verbatim>\<open>run_fuzz_tests\<close>.\<close>

record run_stats =
  stats_completed :: int
  stats_failed :: int

text \<open>
  \<^verbatim>\<open>FuzzRunner.run_fuzz_tests\<close> along a sequence of steps. The result is \<open>None\<close> when the
  sequence is not a complete run (a step is not possible, or work is left at its end).
  \<open>Inl\<close> is the exception that leaves the function: the division by \<^verbatim>\<open>self.jobs\<close> in
  the third log line, the check of \<^verbatim>\<open>max_workers\<close> by the pool, or the interrupt.
\<close>

definition run_fuzz_tests ::
  "host \<Rightarrow> FuzzRunner \<Rightarrow> FuzzTarget list \<Rightarrow> event list \<Rightarrow> sink \<Rightarrow> ((py_exn + run_stats) \<times> sink) option" where
  "run_fuzz_tests h r targets evs s =
     (if targets = [] then Some (Inr \<lparr>stats_completed = 0, stats_failed = 0\<rparr>, s)
      else if worker_jobs r = 0 then Some (Inl (Exception ''integer division or modulo by zero''), s)
      else if worker_jobs r < 0 then Some (Inl (Exception ''max_workers must be greater than 0''), s)
      else
        (case run_events h r targets (init_sched targets s) evs of
           None \<Rightarrow> None
         | Some st \<Rightarrow>
             if terminated st
             then Some (if interrupted st then Inl KeyboardInterrupt
                        else Inr \<lparr>stats_completed = completed st, stats_failed = failed st\<rparr>,
                        sink_state st)
             else None))"

subsection \<open>Target discovery\<close>

text \<open>
  The source tree as discovery sees it: the list \<^verbatim>\<open>glob.glob("**/*_test.go", recursive=True)\<close>
  returns, in the order in which it returns it, and the text read from a path (\<open>None\<close>
  when opening or reading raises). File contents are ASCII text.
\<close>

record source_tree =
  glob_listing :: "string list"
  read_text :: "string \<Rightarrow> string option"

text \<open>The classes \<^verbatim>\<open>\s\<close> and \<^verbatim>\<open>\w\<close> of \<^verbatim>\<open>re\<close> on ASCII characters.\<close>

definition is_space :: "char \<Rightarrow> bool" where
  "is_space c = (let n = (of_char c :: nat) in (9 \<le> n \<and> n \<le> 13) \<or> (28 \<le> n \<and> n \<le> 32))"

definition is_word :: "char \<Rightarrow> bool" where
  "is_word c =
     (let n = (of_char c :: nat)
      in (48 \<le> n \<and> n \<le> 57) \<or> (65 \<le> n \<and> n \<le> 90) \<or> n = 95 \<or> (97 \<le> n \<and> n \<le> 122))"

fun strip_prefix :: "string \<Rightarrow> string \<Rightarrow> string option" where
  "strip_prefix [] s = Some s"
| "strip_prefix (p # ps) [] = None"
| "strip_prefix (p # ps) (c # cs) = (if p = c then strip_prefix ps cs else None)"

text \<open>
  A match of \<^verbatim>\<open>func\s+(Fuzz\w*)\s*\(\<close> at the start of a text: the group and the text
  after the match. The three character classes and the parenthesis exclude one another
  and \<^verbatim>\<open>F\<close> is no space, so the greedy match is the only candidate and no backtracking
  finds another.
\<close>

definition match_at :: "string \<Rightarrow> (string \<times> string) option" where
  "match_at s =
     (case strip_prefix ''func'' s of
        None \<Rightarrow> None
      | Some s1 \<Rightarrow>
          if takeWhile is_space s1 = [] then None
          else
            (case strip_prefix ''Fuzz'' (dropWhile is_space s1) of
               None \<Rightarrow> None
             | Some s3 \<Rightarrow>
                 (case dropWhile is_space (dropWhile is_word s3) of
                    [] \<Rightarrow> None
                  | c # rest \<Rightarrow>
                      if c = CHR ''(''
                      then Some (''Fuzz'' @ takeWhile is_word s3, rest)
                      else None)))"

lemma strip_prefix_length: "strip_prefix p s = Some t \<Longrightarrow> length t \<le> length s"
  by (induction p s rule: strip_prefix.induct) (auto split: if_splits)

lemma match_at_shorter: "match_at s = Some (g, rest) \<Longrightarrow> length rest < length s"
proof -
  assume m: "match_at s = Some (g, rest)"
  then obtain s1 s3 c where
    a: "strip_prefix ''func'' s = Some s1" and
    b: "strip_prefix ''Fuzz'' (dropWhile is_space s1) = Some s3" and
    c: "dropWhile is_space (dropWhile is_word s3) = c # rest"
    by (auto simp: match_at_def split: option.splits if_splits list.splits)
  have "length rest < length (dropWhile is_space (dropWhile is_word s3))"
    using c by simp
  also have "\<dots> \<le> length s3"
    by (meson length_dropWhile_le order_trans)
  also have "\<dots> \<le> length (dropWhile is_space s1)"
    using b by (rule strip_prefix_length)
  also have "\<dots> \<le> length s1"
    by (rule length_dropWhile_le)
  also have "\<dots> \<le> length s"
    using a by (rule strip_prefix_length)
  finally show ?thesis .
qed

text \<open>\<^verbatim>\<open>re.findall\<close> with that pattern: the groups of the matches, left to right, a
  search resuming after each match.\<close>

function re_findall :: "string \<Rightarrow> string list" where
  "re_findall [] = []"
| "re_findall (c # cs) =
     (case match_at (c # cs) of
        Some (g, rest) \<Rightarrow> g # re_findall rest
      | None \<Rightarrow> re_findall cs)"
  by pat_completeness auto
termination
  by (relation "measure length") (auto dest: match_at_shorter)

text \<open>\<^verbatim>\<open>re.search\<close> with the pattern \<^verbatim>\<open>func\s+Fuzz\w*\s*\(\<close>, as a truth value.\<close>

fun re_search :: "string \<Rightarrow> bool" where
  "re_search [] = False"
| "re_search (c # cs) = (match_at (c # cs) \<noteq> None \<or> re_search cs)"

text \<open>\<^verbatim>\<open>os.path.dirname\<close> of \<^verbatim>\<open>posixpath\<close>.\<close>

definition dirname :: "string \<Rightarrow> string" where
  "dirname p =
     (let head = rev (dropWhile (\<lambda>c. c \<noteq> CHR ''/'') (rev p))
      in if head \<noteq> [] \<and> head \<noteq> replicate (length head) (CHR ''/'')
         then rev (dropWhile (\<lambda>c. c = CHR ''/'') (rev head))
         else head)"

text \<open>The first loop of \<^verbatim>\<open>discover_fuzz_targets\<close>; \<open>acc\<close> is \<^verbatim>\<open>fuzz_files\<close>.\<close>

fun find_fuzz_files :: "source_tree \<Rightarrow> string list \<Rightarrow> string list \<Rightarrow> string list" where
  "find_fuzz_files t [] acc = acc"
| "find_fuzz_files t (test_file # rest) acc =
     (case read_text t test_file of
        None \<Rightarrow> find_fuzz_files t rest acc
      | Some content \<Rightarrow>
          if re_search content then find_fuzz_files t rest (acc @ [test_file])
          else find_fuzz_files t rest acc)"

text \<open>The inner loop over \<^verbatim>\<open>fuzz_funcs\<close>; \<open>acc\<close> is \<^verbatim>\<open>targets\<close>.\<close>

fun add_targets :: "string \<Rightarrow> string list \<Rightarrow> FuzzTarget list \<Rightarrow> FuzzTarget list" where
  "add_targets test_file [] acc = acc"
| "add_targets test_file (func # rest) acc =
     add_targets test_file rest
       (acc @ [\<lparr>directory = (if dirname test_file \<noteq> [] then dirname test_file else ''.''),
                function_name = func, file_path = test_file\<rparr>])"

text \<open>The second loop.\<close>

fun extract_targets :: "source_tree \<Rightarrow> string list \<Rightarrow> FuzzTarget list \<Rightarrow> FuzzTarget list" where
  "extract_targets t [] acc = acc"
| "extract_targets t (test_file # rest) acc =
     (case read_text t test_file of
        None \<Rightarrow> extract_targets t rest acc
      | Some content \<Rightarrow> extract_targets t rest (add_targets test_file (re_findall content) acc))"

text \<open>\<^verbatim>\<open>FuzzRunner.discover_fuzz_targets\<close>.\<close>

definition discover_fuzz_targets :: "source_tree \<Rightarrow> FuzzTarget list" where
  "discover_fuzz_targets t =
     (let fuzz_files = find_fuzz_files t (glob_listing t) []
      in if fuzz_files = [] then [] else extract_targets t fuzz_files [])"

subsection \<open>The entry point\<close>

text \<open>
  \<^verbatim>\<open>FuzzRunner.run\<close> along a sequence of steps of the scheduling loop: the exit status and
  the error file, \<open>None\<close> when the sequence is not a complete run. An interrupt is a step
  of the scheduling loop; one that arrives during discovery or the summary is not modelled.
\<close>

definition run ::
  "host \<Rightarrow> FuzzRunner \<Rightarrow> source_tree \<Rightarrow> event list \<Rightarrow> sink \<Rightarrow> (int \<times> sink) option" where
  "run h r t evs s =
     (case run_fuzz_tests h r (discover_fuzz_targets t) evs s of
        None \<Rightarrow> None
      | Some (Inl KeyboardInterrupt, s1) \<Rightarrow> Some (130, s1)
      | Some (Inl (Exception e), s1) \<Rightarrow> Some (1, s1)
      | Some (Inr stats, s1) \<Rightarrow>
          if stats_failed stats > 0 then
            (case (if truthy (error_file (config r))
                   then log_error h r
                          (''Total of '' @ str_int (stats_failed stats) @ '' fuzz tests failed'') s1
                   else (Inr (), s1)) of
               (Inl e, s2) \<Rightarrow> Some (1, s2)
             | (Inr u, s2) \<Rightarrow> Some (if continue_on_failure (config r) then 0 else 1, s2))
          else Some (0, s1))"

subsection \<open>Writes that succeed\<close>

text \<open>The error file after a \<^verbatim>\<open>_log_error\<close> whose write succeeds.\<close>

definition logged :: "FuzzRunner \<Rightarrow> string \<Rightarrow> sink \<Rightarrow> sink" where
  "logged r message s =
     (if error_file_handle r
      then s\<lparr>written := written s @ [''[ERROR] '' @ message @ ''\<newline>''], attempts := Suc (attempts s)\<rparr>
      else s)"

text \<open>No write to the error file raises: there is no error file, or no write ever fails.\<close>

definition writes_succeed :: "host \<Rightarrow> FuzzRunner \<Rightarrow> bool" where
  "writes_succeed h r = (\<not> error_file_handle r \<or> (\<forall>k. sink_fault h k = None))"

subsection \<open>The targets of one file\<close>

text \<open>The targets that one listed file contributes, in the order of the declarations in
  its text; none when the file cannot be read.\<close>

definition targets_of_file :: "source_tree \<Rightarrow> string \<Rightarrow> FuzzTarget list" where
  "targets_of_file t p =
     (case read_text t p of
        None \<Rightarrow> []
      | Some content \<Rightarrow>
          map (\<lambda>f. \<lparr>directory = (if dirname p \<noteq> [] then dirname p else ''.''),
                     function_name = f, file_path = p\<rparr>)
            (re_findall content))"

subsection \<open>Failure blocks in the error file\<close>

text \<open>
  The block that the loop body writes for a failed result: the line of the target, the
  line of the details when the result has an error text, and the separator.
\<close>

definition failure_block :: "FuzzResult \<Rightarrow> string list" where
  "failure_block res =
     [''[ERROR] FAILED: '' @ function_name (target res) @ '' in '' @ file_path (target res) @
        ''\<newline>''] @
     (if error res \<noteq> [] then [''[ERROR] Details: '' @ error res @ ''\<newline>''] else []) @
     [''[ERROR] ---\<newline>'']"

text \<open>A written text is part of a failure block, by the way it starts.\<close>

definition block_record :: "string \<Rightarrow> bool" where
  "block_record c =
     (take 16 c = ''[ERROR] FAILED: '' \<or> take 17 c = ''[ERROR] Details: '' \<or>
      c = ''[ERROR] ---\<newline>'')"

text \<open>The failed results among the futures that the loop has received, in that order.\<close>

definition failing_result :: "future \<Rightarrow> FuzzResult list" where
  "failing_result f =
     (case f of Finished (Inr res) \<Rightarrow> (if success res then [] else [res]) | _ \<Rightarrow> [])"

definition failed_results :: "future list \<Rightarrow> nat list \<Rightarrow> FuzzResult list" where
  "failed_results fs ns = concat (map (\<lambda>i. failing_result (fs ! i)) ns)"

subsection \<open>The states of a run in which no write raises\<close>

text \<open>
  What holds in every state of a run in which no write to the error file raises: every
  finished future holds a result, for its own target; the loop has counted each future it
  received once; \<open>failed\<close> counts the failed results among them; and the failure-block
  texts of the error file are the blocks of these results, in that order.
\<close>

definition run_inv :: "FuzzRunner \<Rightarrow> FuzzTarget list \<Rightarrow> sched \<Rightarrow> bool" where
  "run_inv r ts st \<longleftrightarrow>
     length (futures st) = length ts \<and> distinct (seen st) \<and>
     (\<forall>i \<in> set (seen st). i < length ts \<and> (\<exists>x. futures st ! i = Finished x)) \<and>
     (\<forall>i x. i < length ts \<and> futures st ! i = Finished x \<longrightarrow>
        (\<exists>res. x = Inr res \<and> target res = ts ! i)) \<and>
     completed st = int (length (seen st)) \<and>
     failed st = int (length (failed_results (futures st) (seen st))) \<and>
     (error_file_handle r \<longrightarrow>
        filter block_record (written (sink_state st)) =
          concat (map failure_block (failed_results (futures st) (seen st))))"


section \<open>Concrete inputs\<close>

text \<open>A host with four cores, no environment variables and an error file that never fails.\<close>

definition host4 :: host where
  "host4 = \<lparr>os_cpu_count = Some 4, os_environ = Map.empty, fmt_1f = (\<lambda>x. ''0.0''),
            sink_fault = (\<lambda>k. None)\<rparr>"

definition target0 :: FuzzTarget where
  "target0 = \<lparr>directory = ''pkg'', function_name = ''FuzzParse'', file_path = ''pkg/parse_test.go''\<rparr>"

text \<open>A configuration with an error file that continues on failure.\<close>

definition cfg_sink :: FuzzConfig where
  "cfg_sink = FuzzConfig_init\<lparr>error_file := Some ''fuzz_errors.log'', continue_on_failure := True\<rparr>"

text \<open>A subprocess that exits with status 1, one that passes, and one that times out.\<close>

definition obs_fail :: sandbox_obs where
  "obs_fail = \<lparr>clock = (\<lambda>k. 0), go_mod_exists = True, proc = (\<lambda>c. Exited 1 [] ''boom'')\<rparr>"

definition obs_pass :: sandbox_obs where
  "obs_pass = \<lparr>clock = (\<lambda>k. 0), go_mod_exists = True, proc = (\<lambda>c. Exited 0 ''ok'' [])\<rparr>"

definition obs_timeout :: sandbox_obs where
  "obs_timeout = \<lparr>clock = (\<lambda>k. 0), go_mod_exists = True, proc = (\<lambda>c. TimeoutExpired)\<rparr>"

text \<open>A host whose error file accepts two writes and then is full, and one where every
  write fails.\<close>

definition host_full :: host where
  "host_full =
     host4\<lparr>sink_fault := (\<lambda>k. if k < 2 then None else Some ''[Errno 28] No space left on device'')\<rparr>"


text \<open>A tree whose listing is not in path order, and one that differs from it on a path
  the listing does not contain.\<close>

definition tree0 :: source_tree where
  "tree0 = \<lparr>glob_listing = [''b_test.go'', ''a/a_test.go''],
            read_text = (\<lambda>p. if p = ''b_test.go'' then Some ''func FuzzB(f *testing.F) {}''
                           else if p = ''a/a_test.go'' then Some ''func FuzzA1(f){} func FuzzA2(f){}''
                           else None)\<rparr>"

definition tree1 :: source_tree where
  "tree1 = tree0\<lparr>read_text := (read_text tree0)(''other.go'' := Some ''func FuzzX('')\<rparr>"

text \<open>Two jobs, stop on the first failure, no error file; three targets.\<close>

definition cfg_two :: FuzzConfig where
  "cfg_two = FuzzConfig_init\<lparr>jobs := 2\<rparr>"

definition target1 :: FuzzTarget where
  "target1 = \<lparr>directory = ''pkg'', function_name = ''FuzzScan'', file_path = ''pkg/scan_test.go''\<rparr>"

definition target2 :: FuzzTarget where
  "target2 = \<lparr>directory = ''.'', function_name = ''FuzzMain'', file_path = ''main_test.go''\<rparr>"

text \<open>The result of a target whose subprocess is \<open>obs_fail\<close>.\<close>

definition failed_result :: "FuzzTarget \<Rightarrow> FuzzResult" where
  "failed_result tgt = \<lparr>target = tgt, success = False, duration = 0, output_text = [], error = ''boom''\<rparr>"

text \<open>A run that stops on the failure of the first target while the second is running:
  the state when the failed result arrives, after the loop body, and after the second
  target has finished.\<close>

definition abort_targets :: "FuzzTarget list" where
  "abort_targets = [target0, target1, target2]"

definition abort_st1 :: sched where
  "abort_st1 = \<lparr>futures = [Finished (Inr (failed_result target0)), Running, Pending], seen = [],
                completed = 0, failed = 0, stopped = False, interrupted = False,
                sink_state = sink_init\<rparr>"

definition abort_st2 :: sched where
  "abort_st2 = \<lparr>futures = [Finished (Inr (failed_result target0)), Running, Cancelled], seen = [0],
                completed = 1, failed = 1, stopped = True, interrupted = False,
                sink_state = sink_init\<rparr>"

definition abort_st3 :: sched where
  "abort_st3 = \<lparr>futures = [Finished (Inr (failed_result target0)),
                           Finished (Inr (failed_result target1)), Cancelled], seen = [0],
                completed = 1, failed = 1, stopped = True, interrupted = False,
                sink_state = sink_init\<rparr>"





text \<open>The state of a run of one target that is counted twice.\<close>

definition double_st :: sched where
  "double_st =
     \<lparr>futures = [Finished (Inr (failed_result target0))], seen = [0], completed = 2, failed = 2,
      stopped = False, interrupted = False,
      sink_state = \<lparr>written = [''[ERROR] Failed fuzz test: FuzzParse in pkg/parse_test.go\<newline>'',
                               ''[ERROR] Error output: boom\<newline>''], attempts = 3\<rparr>\<rparr>"



section \<open>Properties\<close>

subsection \<open>The worker count\<close>

lemma worker_jobs_init_pos: "0 < worker_jobs (FuzzRunner_init h cfg)"
  by (simp add: FuzzRunner_init_def determine_jobs_def)

text \<open>
  C7, as the specification states it, gives two workers to a host of up to four cores.
  With the default configuration (\<^verbatim>\<open>jobs = 0\<close>) on four cores the runner uses one worker.
\<close>

theorem auto_jobs_counterexample:
  "jobs FuzzConfig_init = 0 \<and> cpu_cores (FuzzRunner_init host4 FuzzConfig_init) = 4 \<and>
   worker_jobs (FuzzRunner_init host4 FuzzConfig_init) = 1 \<and>
   worker_jobs (FuzzRunner_init host4 FuzzConfig_init) \<noteq> 2"
  by (simp add: FuzzRunner_init_def FuzzConfig_init_def host4_def determine_jobs_def
      detect_cpu_cores_def)

text \<open>
  C7, amended: when no worker count is configured (\<^verbatim>\<open>jobs = 0\<close>), the worker count is 1 for
  up to 4 cores, 2 for 5 to 8 cores, and 4 above 8 cores.
\<close>

theorem auto_jobs_table:
  assumes "jobs cfg = 0"
  shows "worker_jobs (FuzzRunner_init h cfg) =
           (if cpu_cores (FuzzRunner_init h cfg) \<le> 4 then 1
            else if cpu_cores (FuzzRunner_init h cfg) \<le> 8 then 2 else 4)"
  using assms by (simp add: FuzzRunner_init_def determine_jobs_def)

text \<open>The table at 4, 6 and 16 cores.\<close>

theorem auto_jobs_table_witness:
  "jobs FuzzConfig_init = 0 \<and> worker_jobs (FuzzRunner_init host4 FuzzConfig_init) = 1 \<and>
   worker_jobs (FuzzRunner_init (host4\<lparr>os_cpu_count := Some 6\<rparr>) FuzzConfig_init) = 2 \<and>
   worker_jobs (FuzzRunner_init (host4\<lparr>os_cpu_count := Some 16\<rparr>) FuzzConfig_init) = 4"
proof -
  have j: "jobs FuzzConfig_init = 0"
    by (simp add: FuzzConfig_init_def)
  have c: "cpu_cores (FuzzRunner_init h FuzzConfig_init) = detect_cpu_cores (os_cpu_count h)" for h
    by (simp add: FuzzRunner_init_def)
  show ?thesis
    using j auto_jobs_table [OF j, of host4]
      auto_jobs_table [OF j, of "host4\<lparr>os_cpu_count := Some 6\<rparr>"]
      auto_jobs_table [OF j, of "host4\<lparr>os_cpu_count := Some 16\<rparr>"]
    by (simp add: c detect_cpu_cores_def host4_def)
qed



subsection \<open>The call of the subprocess\<close>

lemma digit_char_inj: "a < 10 \<Longrightarrow> b < 10 \<Longrightarrow> digit_char a = digit_char b \<Longrightarrow> a = b"
proof -
  assume a: "a < 10" and b: "b < 10" and e: "digit_char a = digit_char b"
  have "of_char (digit_char a) = (48 + a) mod 256" "of_char (digit_char b) = (48 + b) mod 256"
    by (simp_all add: digit_char_def)
  then have "(48 + a) mod 256 = (48 + b) mod 256"
    using e by simp
  then show "a = b"
    using a b by simp
qed

lemma digit_char_not_minus: "d < 10 \<Longrightarrow> digit_char d \<noteq> CHR ''-''"
proof
  assume d: "d < 10" and e: "digit_char d = CHR ''-''"
  have "(of_char (digit_char d) :: nat) = (48 + d) mod 256"
    by (simp add: digit_char_def)
  then have "(48 + d) mod 256 = (45 :: nat)"
    using e by simp
  then show False
    using d by simp
qed

lemma str_nat_nonempty: "str_nat n \<noteq> []"
  by (subst str_nat.simps) simp

lemma str_nat_length_one: "length (str_nat n) = 1 \<longleftrightarrow> n < 10"
  by (subst str_nat.simps) (simp add: str_nat_nonempty)

lemma str_nat_inj: "str_nat n = str_nat m \<Longrightarrow> n = m"
proof (induction n arbitrary: m rule: str_nat.induct)
  case (1 n)
  show ?case
  proof (cases "n < 10")
    case True
    then have "m < 10"
      using "1.prems" str_nat_length_one [of n] str_nat_length_one [of m] by simp
    then show ?thesis
      using True "1.prems" digit_char_inj [of n m] by (simp add: str_nat.simps [of n] str_nat.simps [of m])
  next
    case False
    then have m: "\<not> m < 10"
      using "1.prems" str_nat_length_one [of n] str_nat_length_one [of m] by simp
    have "str_nat (n div 10) @ [digit_char (n mod 10)] = str_nat (m div 10) @ [digit_char (m mod 10)]"
      using "1.prems" False m by (simp add: str_nat.simps [of n] str_nat.simps [of m])
    then have "str_nat (n div 10) = str_nat (m div 10)" "digit_char (n mod 10) = digit_char (m mod 10)"
      by simp_all
    then have "n div 10 = m div 10" "n mod 10 = m mod 10"
      using "1.IH" [OF False] digit_char_inj [of "n mod 10" "m mod 10"] by simp_all
    then show ?thesis
      by (metis div_mult_mod_eq)
  qed
qed

lemma str_nat_hd: "hd (str_nat n) \<noteq> CHR ''-''"
proof (induction n rule: str_nat.induct)
  case (1 n)
  show ?case
  proof (cases "n < 10")
    case True
    then show ?thesis
      using digit_char_not_minus [of n] by (simp add: str_nat.simps [of n])
  next
    case False
    then show ?thesis
      using "1.IH" by (simp add: str_nat.simps [of n] str_nat_nonempty)
  qed
qed

text \<open>The decimal text determines the integer.\<close>

lemma str_int_inj: "str_int a = str_int b \<Longrightarrow> a = b"
proof -
  assume e: "str_int a = str_int b"
  have neg: "str_nat k \<noteq> CHR ''-'' # s" "CHR ''-'' # s \<noteq> str_nat k" for k s
    using str_nat_hd [of k] by (cases "str_nat k"; auto)+
  show "a = b"
  proof (cases "a < 0")
    case True
    then have "b < 0"
      using e neg [where k = "nat b"] by (auto simp: str_int_def split: if_splits)
    then have "nat (- a) = nat (- b)"
      using e True by (simp add: str_int_def str_nat_inj)
    then show ?thesis
      using True \<open>b < 0\<close> by simp
  next
    case False
    then have "\<not> b < 0"
      using e neg [where k = "nat a"] by (auto simp: str_int_def split: if_splits)
    then have "nat a = nat b"
      using e False by (simp add: str_int_def str_nat_inj)
    then show ?thesis
      using False \<open>\<not> b < 0\<close> by simp
  qed
qed




subsection \<open>One outcome per invocation\<close>

lemma log_error_succeeds:
  "writes_succeed h r \<Longrightarrow> log_error h r message s = (Inr (), logged r message s)"
  by (auto simp: writes_succeed_def log_error_def logged_def)




subsection \<open>Target discovery\<close>

lemma re_search_findall: "re_search s \<longleftrightarrow> re_findall s \<noteq> []"
  by (induction s rule: re_findall.induct) (auto split: option.splits)

lemma find_fuzz_files_filter:
  "find_fuzz_files t ps acc =
     acc @ filter (\<lambda>p. case read_text t p of None \<Rightarrow> False | Some c \<Rightarrow> re_search c) ps"
  by (induction ps arbitrary: acc) (auto split: option.splits)

lemma add_targets_map:
  "add_targets p fs acc =
     acc @ map (\<lambda>f. \<lparr>directory = (if dirname p \<noteq> [] then dirname p else ''.''),
                      function_name = f, file_path = p\<rparr>) fs"
  by (induction fs arbitrary: acc) auto

lemma extract_targets_concat:
  "extract_targets t ps acc = acc @ concat (map (targets_of_file t) ps)"
  by (induction ps arbitrary: acc) (auto simp: targets_of_file_def add_targets_map split: option.splits)

lemma concat_map_filter_nonempty:
  "(\<And>x. x \<in> set xs \<Longrightarrow> \<not> P x \<Longrightarrow> f x = []) \<Longrightarrow> concat (map f (filter P xs)) = concat (map f xs)"
  by (induction xs) auto

lemma discover_concat:
  "discover_fuzz_targets t = concat (map (targets_of_file t) (glob_listing t))"
proof -
  let ?P = "\<lambda>p. case read_text t p of None \<Rightarrow> False | Some c \<Rightarrow> re_search c"
  have empty: "targets_of_file t p = []" if "\<not> ?P p" for p
    using that by (auto simp: targets_of_file_def re_search_findall split: option.splits)
  have eq: "concat (map (targets_of_file t) (filter ?P (glob_listing t))) =
        concat (map (targets_of_file t) (glob_listing t))"
    by (rule concat_map_filter_nonempty) (rule empty)
  show ?thesis
  proof (cases "filter ?P (glob_listing t) = []")
    case True
    then show ?thesis
      using eq by (simp add: discover_fuzz_targets_def find_fuzz_files_filter)
  next
    case False
    then show ?thesis
      using eq by (simp add: discover_fuzz_targets_def find_fuzz_files_filter extract_targets_concat)
  qed
qed

text \<open>
  C6, as stated, orders the targets by file path. Discovery keeps the order of the listing
  it gets from \<^verbatim>\<open>glob\<close> and never sorts: a listing with \<^verbatim>\<open>b_test.go\<close> before \<^verbatim>\<open>a/a_test.go\<close>
  gives targets that are not in path order.
\<close>

theorem discovery_order_counterexample:
  "map file_path (discover_fuzz_targets tree0) = [''b_test.go'', ''a/a_test.go'', ''a/a_test.go''] \<and>
   \<not> sorted (map file_path (discover_fuzz_targets tree0))"
  by (simp add: discover_fuzz_targets_def tree0_def match_at_def is_space_def is_word_def dirname_def)

text \<open>
  C6, amended: discovery is a function of the listing and of the texts of the listed files:
  two runs that get the same listing and read the same texts produce identical ordered
  target lists; and the order is the order of the listing, then the order of the
  declarations inside each file.
\<close>

theorem discovery_order:
  assumes "glob_listing t1 = glob_listing t2"
    and "\<forall>p \<in> set (glob_listing t1). read_text t1 p = read_text t2 p"
  shows "discover_fuzz_targets t1 = discover_fuzz_targets t2 \<and>
         discover_fuzz_targets t1 = concat (map (targets_of_file t1) (glob_listing t1))"
proof -
  have "targets_of_file t1 p = targets_of_file t2 p" if "p \<in> set (glob_listing t1)" for p
    using assms(2) that by (simp add: targets_of_file_def)
  then have "map (targets_of_file t1) (glob_listing t1) = map (targets_of_file t2) (glob_listing t1)"
    by (intro map_cong refl)
  then have m: "map (targets_of_file t1) (glob_listing t1) = map (targets_of_file t2) (glob_listing t2)"
    using assms(1) by (simp only:)
  show ?thesis
    by (simp only: discover_concat m)
qed

text \<open>Two trees with the same listing and the same texts of the listed files.\<close>

theorem discovery_order_witness:
  "discover_fuzz_targets tree0 = discover_fuzz_targets tree1 \<and>
   map function_name (discover_fuzz_targets tree0) = [''FuzzB'', ''FuzzA1'', ''FuzzA2''] \<and>
   map directory (discover_fuzz_targets tree0) = [''.'', ''a'', ''a'']"
proof -
  have a: "glob_listing tree0 = glob_listing tree1"
    by (simp add: tree1_def)
  have b: "\<forall>p \<in> set (glob_listing tree0). read_text tree0 p = read_text tree1 p"
    by (simp add: tree0_def tree1_def)
  have e1: "discover_fuzz_targets tree0 = discover_fuzz_targets tree1"
    and e2: "discover_fuzz_targets tree0 = concat (map (targets_of_file tree0) (glob_listing tree0))"
    using discovery_order [OF a b] by blast+
  have c: "concat (map (targets_of_file tree0) (glob_listing tree0)) =
      [\<lparr>directory = ''.'', function_name = ''FuzzB'', file_path = ''b_test.go''\<rparr>,
       \<lparr>directory = ''a'', function_name = ''FuzzA1'', file_path = ''a/a_test.go''\<rparr>,
       \<lparr>directory = ''a'', function_name = ''FuzzA2'', file_path = ''a/a_test.go''\<rparr>]"
    by (simp add: tree0_def targets_of_file_def match_at_def is_space_def is_word_def dirname_def)
  have v: "map function_name (discover_fuzz_targets tree0) = [''FuzzB'', ''FuzzA1'', ''FuzzA2'']"
    "map directory (discover_fuzz_targets tree0) = [''.'', ''a'', ''a'']"
    by (simp_all only: e2 c) simp_all
  show ?thesis
    using e1 v by blast
qed

subsection \<open>Steps of the scheduling loop\<close>

lemma run_events_invariant:
  assumes "run_events h r ts st evs = Some st'"
    and "P st"
    and "\<And>a e b. P a \<Longrightarrow> step h r ts a e = Some b \<Longrightarrow> P b"
  shows "P st'"
  using assms(1,2)
proof (induction evs arbitrary: st)
  case Nil
  then show ?case by simp
next
  case (Cons e evs)
  then show ?case
    by (auto split: option.splits intro: assms(3))
qed

lemma run_events_append:
  "run_events h r ts st (es1 @ es2) =
     (case run_events h r ts st es1 of None \<Rightarrow> None | Some st1 \<Rightarrow> run_events h r ts st1 es2)"
  by (induction es1 arbitrary: st) (auto split: option.splits)

lemma first_pending_Some: "first_pending fs = Some i \<Longrightarrow> i < length fs \<and> fs ! i = Pending"
  by (induction fs arbitrary: i) (auto split: if_splits)

lemma first_pending_None: "first_pending fs = None \<longleftrightarrow> Pending \<notin> set fs"
  by (induction fs) auto

lemma cancel_remaining_nth:
  "i < length fs \<Longrightarrow> cancel_remaining fs ! i = (if fs ! i = Pending then Cancelled else fs ! i)"
  by (simp add: cancel_remaining_def)

lemma cancel_remaining_no_pending: "Pending \<notin> set (cancel_remaining fs)"
  by (auto simp: cancel_remaining_def)

lemma length_cancel_remaining: "length (cancel_remaining fs) = length fs"
  by (simp add: cancel_remaining_def)

text \<open>What the loop body does to each field.\<close>

lemma loop_body_seen: "seen (loop_body h r st i x) = seen st @ [i]"
  by (simp add: loop_body_def Let_def split: sum.splits prod.splits)

lemma loop_body_interrupted: "interrupted (loop_body h r st i x) = interrupted st"
  by (simp add: loop_body_def Let_def split: sum.splits prod.splits)

lemma loop_body_futures:
  "futures (loop_body h r st i x) = futures st \<or>
   futures (loop_body h r st i x) = cancel_remaining (futures st) \<and> stopped (loop_body h r st i x)"
  by (simp add: loop_body_def Let_def split: sum.splits prod.splits)

lemma loop_body_counters:
  "completed st < completed (loop_body h r st i x) \<and> failed st \<le> failed (loop_body h r st i x) \<and>
   failed (loop_body h r st i x) - failed st \<le> completed (loop_body h r st i x) - completed st"
  by (simp add: loop_body_def Let_def split: sum.splits prod.splits)

lemma step_length:
  "step h r ts st e = Some st' \<Longrightarrow> length (futures st') = length (futures st)"
proof (cases e)
  case (Yield i)
  assume "step h r ts st e = Some st'"
  then obtain x where "st' = loop_body h r st i x"
    using Yield by (auto split: if_splits future.splits)
  then show ?thesis
    using loop_body_futures [of h r st i x] by (auto simp: length_cancel_remaining)
qed (auto split: if_splits option.splits prod.splits)

lemma step_counters:
  "step h r ts st e = Some st' \<Longrightarrow>
     completed st \<le> completed st' \<and> failed st \<le> failed st' \<and>
     failed st' - failed st \<le> completed st' - completed st"
proof (cases e)
  case (Yield i)
  assume "step h r ts st e = Some st'"
  then obtain x where "st' = loop_body h r st i x"
    using Yield by (auto split: if_splits future.splits)
  then show ?thesis
    using loop_body_counters [of st h r i x] by simp
qed (auto split: if_splits option.splits prod.splits)


subsection \<open>After the break\<close>

text \<open>Once the loop is left by \<^verbatim>\<open>break\<close> and no future is pending, every further step is a
  \<open>Finish\<close> or an \<open>Interrupt\<close>, and it changes no counter.\<close>

lemma step_after_break:
  assumes "stopped st" and "Pending \<notin> set (futures st)" and "step h r ts st e = Some st'"
  shows "e \<noteq> Dispatch \<and> (\<forall>j. e \<noteq> Yield j) \<and> stopped st' \<and> Pending \<notin> set (futures st') \<and>
         completed st' = completed st \<and> failed st' = failed st \<and> seen st' = seen st \<and>
         length (futures st') = length (futures st) \<and>
         (\<forall>j. futures st ! j = Running \<longrightarrow>
              futures st' ! j = Running \<or> (\<exists>x. futures st' ! j = Finished x)) \<and>
         (\<forall>j x. futures st ! j = Finished x \<longrightarrow> futures st' ! j = Finished x)"
proof (cases e)
  case Dispatch
  then show ?thesis
    using assms by (auto simp: first_pending_None [symmetric] split: if_splits option.splits)
next
  case (Finish i obs)
  then obtain x s' where st': "st' = st\<lparr>futures := (futures st)[i := Finished x], sink_state := s'\<rparr>"
    and i: "i < length (futures st)" "futures st ! i = Running"
    using assms(3) by (auto split: if_splits prod.splits)
  have "Pending \<notin> set ((futures st)[i := Finished x])"
    using assms(2) set_update_subset_insert [of "futures st" i "Finished x"] by auto
  moreover have "(futures st)[i := Finished x] ! j = Running \<or> (\<exists>y. (futures st)[i := Finished x] ! j = Finished y)"
    if "futures st ! j = Running" for j
    using that i by (cases "j = i") auto
  moreover have "(futures st)[i := Finished x] ! j = Finished y" if "futures st ! j = Finished y" for j y
    using that i by (cases "j = i") auto
  ultimately show ?thesis
    using assms(1) Finish by (simp add: st')
next
  case (Yield i)
  then show ?thesis
    using assms by (auto simp: in_loop_def)
next
  case Interrupt
  then show ?thesis
    using assms by (auto split: if_splits)
qed

lemma run_after_break:
  assumes "run_events h r ts st evs = Some st'" and "stopped st" and "Pending \<notin> set (futures st)"
  shows "Dispatch \<notin> set evs \<and> (\<forall>j. Yield j \<notin> set evs) \<and> stopped st' \<and>
         Pending \<notin> set (futures st') \<and> completed st' = completed st \<and> failed st' = failed st \<and>
         seen st' = seen st \<and> length (futures st') = length (futures st) \<and>
         (\<forall>j. futures st ! j = Running \<longrightarrow>
              futures st' ! j = Running \<or> (\<exists>x. futures st' ! j = Finished x)) \<and>
         (\<forall>j x. futures st ! j = Finished x \<longrightarrow> futures st' ! j = Finished x)"
  using assms
proof (induction evs arbitrary: st)
  case Nil
  then show ?case by simp
next
  case (Cons e evs)
  from Cons.prems(1) obtain st1 where s1: "step h r ts st e = Some st1"
    and rest: "run_events h r ts st1 evs = Some st'"
    by (auto split: option.splits)
  note one = step_after_break [OF Cons.prems(2,3) s1]
  note ih = Cons.IH [OF rest]
  have two: "Dispatch \<notin> set evs \<and> (\<forall>j. Yield j \<notin> set evs) \<and> stopped st' \<and>
         Pending \<notin> set (futures st') \<and> completed st' = completed st1 \<and> failed st' = failed st1 \<and>
         seen st' = seen st1 \<and> length (futures st') = length (futures st1) \<and>
         (\<forall>j. futures st1 ! j = Running \<longrightarrow>
              futures st' ! j = Running \<or> (\<exists>x. futures st' ! j = Finished x)) \<and>
         (\<forall>j x. futures st1 ! j = Finished x \<longrightarrow> futures st' ! j = Finished x)"
    using ih one by blast
  show ?case
    using one two by (simp; metis)
qed


lemma logged_written:
  "written (logged r m s) =
     (if error_file_handle r then written s @ [''[ERROR] '' @ m @ ''\<newline>''] else written s)"
  by (simp add: logged_def)

lemma log_failure_block_succeeds:
  assumes "writes_succeed h r"
  shows "\<exists>s'. log_failure_block h r res s = (Inr (), s') \<and>
              written s' = (if error_file_handle r then written s @ failure_block res else written s)"
  by (simp add: log_failure_block_def log_error_succeeds [OF assms] and_then_def logged_written
      failure_block_def)

lemma loop_body_break:
  assumes "\<not> continue_on_failure (config r)" and "\<not> success res" and "writes_succeed h r"
  shows "stopped (loop_body h r st i (Inr res)) \<and>
         futures (loop_body h r st i (Inr res)) = cancel_remaining (futures st) \<and>
         completed (loop_body h r st i (Inr res)) = completed st + 1 \<and>
         failed (loop_body h r st i (Inr res)) = failed st + 1"
proof -
  obtain s' where "log_failure_block h r res (sink_state st) = (Inr (), s')"
    using log_failure_block_succeeds [OF assms(3)] by blast
  then show ?thesis
    using assms(1,2) by (simp add: loop_body_def Let_def)
qed

lemma init_sched_length:
  assumes "run_events h r ts (init_sched ts s) evs = Some st"
  shows "length (futures st) = length ts"
  using assms
  by (rule run_events_invariant) (simp_all add: init_sched_def step_length)

text \<open>
  C1, amended: in a run with \<^verbatim>\<open>continue_on_failure\<close> unset in which no write to the error
  file raises, the step in which the main loop processes a failed result counts it,
  cancels every pending future and leaves the loop. From then on no target is dispatched
  and the loop body runs no more; a target that was running can still finish (its future
  is running with the finishing step possible, or has finished); and the counters keep
  the values they had when the loop was left, so the outcome of such a target is not
  added to them.
\<close>

theorem abort_stops_dispatch:
  assumes "\<not> continue_on_failure cfg"
    and "writes_succeed h (FuzzRunner_init h cfg)"
    and "run_events h (FuzzRunner_init h cfg) ts (init_sched ts s) evs1 = Some st1"
    and "futures st1 ! i = Finished (Inr res)" and "\<not> success res"
    and "step h (FuzzRunner_init h cfg) ts st1 (Yield i) = Some st2"
    and "run_events h (FuzzRunner_init h cfg) ts st2 evs2 = Some st3"
  shows "completed st2 = completed st1 + 1 \<and> failed st2 = failed st1 + 1 \<and> stopped st2 \<and>
         Pending \<notin> set (futures st2) \<and>
         Dispatch \<notin> set evs2 \<and> (\<forall>j. Yield j \<notin> set evs2) \<and>
         step h (FuzzRunner_init h cfg) ts st3 Dispatch = None \<and>
         completed st3 = completed st2 \<and> failed st3 = failed st2 \<and>
         (\<forall>j. j < length ts \<and> futures st1 ! j = Running \<longrightarrow>
            (\<exists>x. futures st3 ! j = Finished x) \<or>
            futures st3 ! j = Running \<and>
            (\<forall>obs. step h (FuzzRunner_init h cfg) ts st3 (Finish j obs) \<noteq> None))"
proof -
  let ?r = "FuzzRunner_init h cfg"
  have cfg: "config ?r = cfg"
    by (simp add: FuzzRunner_init_def)
  have len1: "length (futures st1) = length ts"
    using assms(3) by (rule init_sched_length)
  have st2: "st2 = loop_body h ?r st1 i (Inr res)"
    using assms(6,4) by (auto split: if_splits)
  note b = loop_body_break [of ?r res h st1 i, unfolded cfg, OF assms(1) assms(5) assms(2)]
  have stop2: "stopped st2" and fut2: "futures st2 = cancel_remaining (futures st1)"
    and c2: "completed st2 = completed st1 + 1" and f2: "failed st2 = failed st1 + 1"
    using b by (simp_all add: st2)
  have np2: "Pending \<notin> set (futures st2)"
    by (simp add: fut2 cancel_remaining_no_pending)
  note after = run_after_break [OF assms(7) stop2 np2]
  have nd: "step h ?r ts st3 Dispatch = None"
    using after by (simp add: first_pending_None [THEN iffD2])
  have len3: "length (futures st3) = length ts"
    using after by (simp add: fut2 length_cancel_remaining len1)
  have run: "(\<exists>x. futures st3 ! j = Finished x) \<or>
            futures st3 ! j = Running \<and> (\<forall>obs. step h ?r ts st3 (Finish j obs) \<noteq> None)"
    if j: "j < length ts" "futures st1 ! j = Running" for j
  proof -
    have "futures st2 ! j = Running"
      using j len1 by (simp add: fut2 cancel_remaining_nth)
    then have "futures st3 ! j = Running \<or> (\<exists>x. futures st3 ! j = Finished x)"
      using after by blast
    moreover have "step h ?r ts st3 (Finish j obs) \<noteq> None" if "futures st3 ! j = Running" for obs
      using that j len3 by (simp split: prod.splits)
    ultimately show ?thesis
      by blast
  qed
  show ?thesis
    using c2 f2 stop2 np2 after nd run by blast
qed


text \<open>The definitions that evaluate a concrete run, and the inputs shared by the examples.\<close>

lemmas sched_eval =
  run_fuzz_tests_def init_sched_def FuzzRunner_init_def determine_jobs_def detect_cpu_cores_def
  running_count_def sink_init_def run_single_fuzz_test_def exited_result_def timeout_result_def
  exception_result_def log_error_def and_then_def except_exception_def truthy_def loop_body_def
  log_failure_block_def in_loop_def terminated_def cancel_remaining_def

lemmas input_eval =
  FuzzConfig_init_def cfg_sink_def cfg_two_def host4_def host_full_def obs_fail_def obs_pass_def
  obs_timeout_def failed_result_def

lemmas abort_eval =
  sched_eval input_eval abort_targets_def abort_st1_def abort_st2_def abort_st3_def

lemma abort_run:
  "run_events host4 (FuzzRunner_init host4 cfg_two) abort_targets (init_sched abort_targets sink_init)
     [Dispatch, Dispatch, Finish 0 obs_fail] = Some abort_st1"
  "step host4 (FuzzRunner_init host4 cfg_two) abort_targets abort_st1 (Yield 0) = Some abort_st2"
  "run_events host4 (FuzzRunner_init host4 cfg_two) abort_targets abort_st2 [Finish 1 obs_fail]
     = Some abort_st3"
  by (simp_all add: abort_eval)

text \<open>
  C1, as stated, has the outcome of a target that was running at the failure recorded in
  the counters. Two jobs, three targets: the second target is running when the failed
  result of the first arrives, it finishes with a failed result of its own, and the run
  ends with \<^verbatim>\<open>completed = 1\<close> and \<^verbatim>\<open>failed = 1\<close>.
\<close>

theorem abort_drops_inflight_counterexample:
  "\<not> continue_on_failure cfg_two \<and>
   run_events host4 (FuzzRunner_init host4 cfg_two) abort_targets (init_sched abort_targets sink_init)
     [Dispatch, Dispatch, Finish 0 obs_fail] = Some abort_st1 \<and>
   futures abort_st1 ! 1 = Running \<and>
   run_events host4 (FuzzRunner_init host4 cfg_two) abort_targets abort_st1 [Yield 0, Finish 1 obs_fail]
     = Some abort_st3 \<and>
   futures abort_st3 ! 1 = Finished (Inr (failed_result target1)) \<and>
   \<not> success (failed_result target1) \<and>
   run_fuzz_tests host4 (FuzzRunner_init host4 cfg_two) abort_targets
     [Dispatch, Dispatch, Finish 0 obs_fail, Yield 0, Finish 1 obs_fail] sink_init
     = Some (Inr \<lparr>stats_completed = 1, stats_failed = 1\<rparr>, sink_init)"
  by (simp add: abort_eval run_fuzz_tests_def target0_def target1_def target2_def)

text \<open>The same run, split at the step that processes the failed result.\<close>

theorem abort_stops_dispatch_witness:
  "run_events host4 (FuzzRunner_init host4 cfg_two) abort_targets (init_sched abort_targets sink_init)
     [Dispatch, Dispatch, Finish 0 obs_fail] = Some abort_st1 \<and>
   step host4 (FuzzRunner_init host4 cfg_two) abort_targets abort_st1 (Yield 0) = Some abort_st2 \<and>
   run_events host4 (FuzzRunner_init host4 cfg_two) abort_targets abort_st2 [Finish 1 obs_fail]
     = Some abort_st3 \<and>
   stopped abort_st2 \<and>
   step host4 (FuzzRunner_init host4 cfg_two) abort_targets abort_st3 Dispatch = None \<and>
   completed abort_st3 = completed abort_st1 + 1 \<and> failed abort_st3 = failed abort_st1 + 1"
proof -
  have a: "\<not> continue_on_failure cfg_two"
    by (simp add: cfg_two_def FuzzConfig_init_def)
  have w: "writes_succeed host4 (FuzzRunner_init host4 cfg_two)"
    by (simp add: writes_succeed_def host4_def)
  have f: "futures abort_st1 ! 0 = Finished (Inr (failed_result target0))"
    "\<not> success (failed_result target0)"
    by (simp_all add: abort_st1_def failed_result_def)
  show ?thesis
    using abort_stops_dispatch [OF a w abort_run(1) f abort_run(2) abort_run(3)] abort_run
    by simp
qed

subsection \<open>Runs in which no write raises\<close>

lemma failing_result_cancel:
  "i < length fs \<Longrightarrow> failing_result (cancel_remaining fs ! i) = failing_result (fs ! i)"
  by (simp add: cancel_remaining_nth failing_result_def)

lemma failed_results_cancel:
  "\<forall>i \<in> set ns. i < length fs \<Longrightarrow> failed_results (cancel_remaining fs) ns = failed_results fs ns"
  by (induction ns) (simp_all add: failed_results_def failing_result_cancel)

lemma failed_results_update:
  "i \<notin> set ns \<Longrightarrow> failed_results (fs[i := v]) ns = failed_results fs ns"
  by (induction ns) (auto simp: failed_results_def)

lemma failed_results_snoc:
  "failed_results fs (ns @ [i]) = failed_results fs ns @ failing_result (fs ! i)"
  by (simp add: failed_results_def)

lemma filter_failure_block: "filter block_record (failure_block res) = failure_block res"
  by (simp add: failure_block_def block_record_def)

lemma run_single_no_fault:
  assumes "writes_succeed h r" and "worker_jobs r \<noteq> 0"
  shows "\<exists>res s'. run_single_fuzz_test h r tgt obs s = (Inr res, s') \<and> target res = tgt \<and>
           filter block_record (written s') = filter block_record (written s)"
  using assms(2)
  by (cases "proc obs (sandbox_call h r tgt (go_mod_exists obs))")
    (simp_all add: run_single_fuzz_test_def exited_result_def timeout_result_def
      exception_result_def log_error_succeeds [OF assms(1)] and_then_def except_exception_def
      Let_def logged_written block_record_def)

lemma run_inv_init: "run_inv r ts (init_sched ts sink_init)"
  by (auto simp: run_inv_def init_sched_def failed_results_def sink_init_def)

text \<open>A future that has not finished changes its state; the error file gets no block text.\<close>

lemma run_inv_update:
  assumes inv: "run_inv r ts st" and i: "i < length (futures st)"
    and nf: "\<forall>x. futures st ! i \<noteq> Finished x"
    and v: "\<forall>x. v = Finished x \<longrightarrow> (\<exists>res. x = Inr res \<and> target res = ts ! i)"
    and s': "filter block_record (written s') = filter block_record (written (sink_state st))"
  shows "run_inv r ts (st\<lparr>futures := (futures st)[i := v], sink_state := s'\<rparr>)"
proof -
  have notin: "i \<notin> set (seen st)"
    using inv nf by (auto simp: run_inv_def)
  have fr: "failed_results ((futures st)[i := v]) (seen st) = failed_results (futures st) (seen st)"
    using notin by (rule failed_results_update)
  have fin: "\<exists>res. x = Inr res \<and> target res = ts ! j"
    if "j < length ts" "(futures st)[i := v] ! j = Finished x" for j x
  proof (cases "j = i")
    case True
    then show ?thesis using that i v by simp
  next
    case False
    then show ?thesis using that inv by (simp add: run_inv_def)
  qed
  have sn: "j < length ts \<and> (\<exists>x. (futures st)[i := v] ! j = Finished x)" if "j \<in> set (seen st)" for j
  proof -
    have "j \<noteq> i" using that notin by blast
    then show ?thesis using that inv by (simp add: run_inv_def)
  qed
  show ?thesis
    unfolding run_inv_def using inv fin sn by (simp add: fr s' run_inv_def)
qed


text \<open>The loop body on a result, when no write raises.\<close>

lemma loop_body_no_fault:
  assumes "writes_succeed h r" and "truthy (error_file (config r)) = error_file_handle r"
  shows "seen (loop_body h r st i (Inr res)) = seen st @ [i] \<and>
         completed (loop_body h r st i (Inr res)) = completed st + 1 \<and>
         failed (loop_body h r st i (Inr res)) = failed st + (if success res then 0 else 1) \<and>
         (futures (loop_body h r st i (Inr res)) = futures st \<or>
          futures (loop_body h r st i (Inr res)) = cancel_remaining (futures st)) \<and>
         written (sink_state (loop_body h r st i (Inr res))) =
           written (sink_state st) @
             (if error_file_handle r \<and> \<not> success res then failure_block res else [])"
proof -
  obtain s' where s': "log_failure_block h r res (sink_state st) = (Inr (), s')"
    "written s' = (if error_file_handle r then written (sink_state st) @ failure_block res
                   else written (sink_state st))"
    using log_failure_block_succeeds [OF assms(1)] by blast
  show ?thesis
    using s' assms(2) by (simp add: loop_body_def Let_def)
qed

lemma run_inv_yield:
  assumes w: "writes_succeed h r" and t: "truthy (error_file (config r)) = error_file_handle r"
    and inv: "run_inv r ts st" and i: "i < length (futures st)" "i \<notin> set (seen st)"
    and x: "futures st ! i = Finished x"
  shows "run_inv r ts (loop_body h r st i x)"
proof -
  have len: "length (futures st) = length ts"
    using inv by (simp add: run_inv_def)
  have "\<forall>i x. i < length ts \<and> futures st ! i = Finished x \<longrightarrow>
        (\<exists>res. x = Inr res \<and> target res = ts ! i)"
    using inv by (simp add: run_inv_def)
  then obtain res where res: "x = Inr res" "target res = ts ! i"
    using i(1) x len by metis
  let ?st' = "loop_body h r st i (Inr res)"
  note lb = loop_body_no_fault [OF w t, of st i res]
  have bound: "\<forall>j \<in> set (seen st @ [i]). j < length (futures st)"
    using inv i len by (auto simp: run_inv_def)
  have fr: "failed_results (futures ?st') (seen st @ [i]) =
        failed_results (futures st) (seen st) @ (if success res then [] else [res])"
  proof -
    have "failed_results (futures ?st') (seen st @ [i]) = failed_results (futures st) (seen st @ [i])"
      using lb failed_results_cancel [OF bound] by auto
    then show ?thesis
      using x res by (simp add: failed_results_snoc failing_result_def)
  qed
  have fin: "futures ?st' ! j = futures st ! j" if "futures st ! j = Finished y" "j < length ts" for j y
    using lb that len by (auto simp: cancel_remaining_nth)
  have keep: "\<exists>res'. y = Inr res' \<and> target res' = ts ! j"
    if "j < length ts" "futures ?st' ! j = Finished y" for j y
  proof -
    have "futures st ! j = Finished y"
      using lb that len by (auto simp: cancel_remaining_nth split: if_splits)
    then show ?thesis
      using inv that by (simp add: run_inv_def)
  qed
  have sn: "j < length ts \<and> (\<exists>y. futures ?st' ! j = Finished y)" if "j \<in> set (seen st @ [i])" for j
  proof -
    have "j < length ts \<and> (\<exists>y. futures st ! j = Finished y)"
      using that inv i x len by (auto simp: run_inv_def)
    then show ?thesis
      using fin by auto
  qed
  have lenf: "length (futures ?st') = length ts"
    using lb len by (auto simp: length_cancel_remaining)
  have dist: "distinct (seen st @ [i])"
    using inv i by (simp add: run_inv_def)
  have sink: "filter block_record (written (sink_state ?st')) =
        concat (map failure_block (failed_results (futures ?st') (seen st @ [i])))"
    if "error_file_handle r"
    using that inv lb by (simp add: fr run_inv_def filter_failure_block)
  have cnt: "completed ?st' = int (length (seen st @ [i]))"
    "failed ?st' = int (length (failed_results (futures ?st') (seen st @ [i])))"
    using inv lb by (simp_all add: fr run_inv_def)
  have seen': "seen ?st' = seen st @ [i]"
    using lb by simp
  show ?thesis
    unfolding res(1) run_inv_def seen'
    using lenf dist sn keep cnt sink by blast
qed

lemma run_inv_step:
  assumes w: "writes_succeed h r" and t: "truthy (error_file (config r)) = error_file_handle r"
    and j: "worker_jobs r \<noteq> 0"
    and inv: "run_inv r ts st" and step: "step h r ts st e = Some st'"
  shows "run_inv r ts st'"
proof (cases e)
  case Dispatch
  then obtain i where i: "first_pending (futures st) = Some i"
    and st': "st' = st\<lparr>futures := (futures st)[i := Running]\<rparr>"
    using step by (auto split: if_splits option.splits)
  have "run_inv r ts (st\<lparr>futures := (futures st)[i := Running], sink_state := sink_state st\<rparr>)"
    using first_pending_Some [OF i] by (intro run_inv_update [OF inv]) simp_all
  then show ?thesis
    by (simp add: st')
next
  case (Finish i obs)
  then obtain x s' where i: "i < length (futures st)" "i < length ts" "futures st ! i = Running"
    and run: "run_single_fuzz_test h r (ts ! i) obs (sink_state st) = (x, s')"
    and st': "st' = st\<lparr>futures := (futures st)[i := Finished x], sink_state := s'\<rparr>"
    using step by (auto split: if_splits prod.splits)
  obtain res where "x = Inr res" "target res = ts ! i"
    "filter block_record (written s') = filter block_record (written (sink_state st))"
    using run_single_no_fault [OF w j, of "ts ! i" obs "sink_state st"] run by auto
  then show ?thesis
    unfolding st' using i by (intro run_inv_update [OF inv]) simp_all
next
  case (Yield i)
  then obtain x where "i < length (futures st)" "i \<notin> set (seen st)" "futures st ! i = Finished x"
    "st' = loop_body h r st i x"
    using step by (auto split: if_splits future.splits)
  then show ?thesis
    using run_inv_yield [OF w t inv] by simp
next
  case Interrupt
  then have "st' = st\<lparr>interrupted := True\<rparr>"
    using step by (auto split: if_splits)
  then show ?thesis
    using inv by (simp add: run_inv_def)
qed

lemma run_inv_reachable:
  assumes "writes_succeed h (FuzzRunner_init h cfg)"
    and "run_events h (FuzzRunner_init h cfg) ts (init_sched ts sink_init) evs = Some st"
  shows "run_inv (FuzzRunner_init h cfg) ts st"
proof -
  have t: "truthy (error_file (config (FuzzRunner_init h cfg))) = error_file_handle (FuzzRunner_init h cfg)"
    by (simp add: FuzzRunner_init_def)
  have j: "worker_jobs (FuzzRunner_init h cfg) \<noteq> 0"
    using worker_jobs_init_pos [of h cfg] by simp
  show ?thesis
    using assms(2) run_inv_init run_inv_step [OF assms(1) t j]
    by (rule run_events_invariant)
qed





subsection \<open>Failure blocks\<close>








subsection \<open>Counters\<close>

lemma counters_ordered:
  assumes "run_events h r ts (init_sched ts s) evs = Some st"
  shows "0 \<le> failed st \<and> failed st \<le> completed st"
proof (rule run_events_invariant [OF assms, where P = "\<lambda>st. 0 \<le> failed st \<and> failed st \<le> completed st"])
  show "0 \<le> failed (init_sched ts s) \<and> failed (init_sched ts s) \<le> completed (init_sched ts s)"
    by (simp add: init_sched_def)
next
  fix a e b
  assume "0 \<le> failed a \<and> failed a \<le> completed a" and "step h r ts a e = Some b"
  then show "0 \<le> failed b \<and> failed b \<le> completed b"
    using step_counters [of h r ts a e b] by linarith
qed

lemma counters_monotone:
  "run_events h r ts st evs = Some st' \<Longrightarrow> completed st \<le> completed st' \<and> failed st \<le> failed st'"
proof (induction evs arbitrary: st)
  case Nil
  then show ?case by simp
next
  case (Cons e evs)
  then obtain st1 where "step h r ts st e = Some st1" "run_events h r ts st1 evs = Some st'"
    by (auto split: option.splits)
  then show ?case
    using step_counters [of h r ts st e st1] Cons.IH [of st1] by linarith
qed

lemma loop_body_continue:
  "continue_on_failure (config r) \<Longrightarrow> stopped (loop_body h r st i x) = stopped st"
  by (simp add: loop_body_def Let_def split: sum.splits prod.splits)

lemma never_stopped:
  assumes "continue_on_failure (config r)" and "run_events h r ts (init_sched ts s) evs = Some st"
  shows "\<not> stopped st"
proof (rule run_events_invariant [OF assms(2), where P = "\<lambda>st. \<not> stopped st"])
  show "\<not> stopped (init_sched ts s)"
    by (simp add: init_sched_def)
next
  fix a e b
  assume "\<not> stopped a" and "step h r ts a e = Some b"
  then show "\<not> stopped b"
    using assms(1)
    by (cases e) (auto simp: loop_body_continue split: if_splits option.splits prod.splits future.splits)
qed

lemma distinct_bounded_length:
  assumes "distinct ns" and "\<forall>i \<in> set ns. i < n"
  shows "length ns \<le> n"
proof -
  have "card (set ns) \<le> card {..<n}"
    using assms(2) by (intro card_mono) auto
  then show ?thesis
    using assms(1) by (simp add: distinct_card)
qed

text \<open>Where C2 holds: every target is counted once when no write to the error file raises.\<close>

lemma completed_all_targets:
  assumes "continue_on_failure cfg" and "writes_succeed h (FuzzRunner_init h cfg)"
    and "run_fuzz_tests h (FuzzRunner_init h cfg) ts evs sink_init = Some (Inr stats, s')"
  shows "stats_completed stats = int (length ts)"
proof (cases "ts = []")
  case True
  then show ?thesis
    using assms(3) by (auto simp: run_fuzz_tests_def)
next
  case False
  let ?r = "FuzzRunner_init h cfg"
  have pos: "\<not> worker_jobs ?r < 0" "worker_jobs ?r \<noteq> 0"
    using worker_jobs_init_pos [of h cfg] by simp_all
  obtain st where st: "run_events h ?r ts (init_sched ts sink_init) evs = Some st"
    and fin: "terminated st" "\<not> interrupted st" "stats_completed stats = completed st"
    using assms(3) False pos by (auto simp: run_fuzz_tests_def split: option.splits if_splits)
  have inv: "run_inv ?r ts st"
    using assms(2) st by (rule run_inv_reachable)
  have "config ?r = cfg"
    by (simp add: FuzzRunner_init_def)
  then have "\<not> stopped st"
    using never_stopped [of ?r h ts sink_init evs st] assms(1) st by simp
  then have ge: "length ts \<le> length (seen st)"
    using fin inv by (simp add: terminated_def in_loop_def run_inv_def)
  have "length (seen st) \<le> length ts"
    using inv by (intro distinct_bounded_length) (simp_all add: run_inv_def)
  then show ?thesis
    using ge inv fin by (simp add: run_inv_def)
qed

subsection \<open>Double counting\<close>

text \<open>
  C2 on the code: one target, \<^verbatim>\<open>continue_on_failure\<close> set, an error file that is full after
  the two writes of the sandbox. The write of the \<^verbatim>\<open>FAILED:\<close> line raises after the loop body
  has counted the result, the handler counts it again, and the run ends with
  \<^verbatim>\<open>completed = 2\<close> for one target.
\<close>

theorem completed_exceeds_targets:
  "continue_on_failure cfg_sink \<and> length [target0] = 1 \<and>
   run_fuzz_tests host_full (FuzzRunner_init host_full cfg_sink) [target0]
     [Dispatch, Finish 0 obs_fail, Yield 0] sink_init =
   Some (Inr \<lparr>stats_completed = 2, stats_failed = 2\<rparr>,
         \<lparr>written = [''[ERROR] Failed fuzz test: FuzzParse in pkg/parse_test.go\<newline>'',
                     ''[ERROR] Error output: boom\<newline>''], attempts = 3\<rparr>)"
  by (simp add: sched_eval input_eval target0_def)

text \<open>
  C5 on the code: in the same run the loop body takes the state with \<^verbatim>\<open>completed = 0\<close> to a
  state with \<^verbatim>\<open>completed = 2\<close>, above the number of targets, which is 1.
\<close>

theorem completed_above_total:
  "run_events host_full (FuzzRunner_init host_full cfg_sink) [target0] (init_sched [target0] sink_init)
     [Dispatch, Finish 0 obs_fail] =
   Some (double_st\<lparr>seen := [], completed := 0, failed := 0,
                   sink_state := (sink_state double_st)\<lparr>attempts := 2\<rparr>\<rparr>) \<and>
   step host_full (FuzzRunner_init host_full cfg_sink) [target0]
     (double_st\<lparr>seen := [], completed := 0, failed := 0,
                 sink_state := (sink_state double_st)\<lparr>attempts := 2\<rparr>\<rparr>) (Yield 0) = Some double_st \<and>
   completed double_st = 2 \<and> int (length [target0]) < completed double_st"
  by (simp add: sched_eval input_eval double_st_def target0_def)

subsection \<open>The exit status\<close>



end
